theory Spec2Isabelle
  imports Main "HOL-Library.AList"
begin

section \<open>Data: bytes, text, exceptions\<close>

text \<open>
  A Python \<^verbatim>\<open>bytes\<close> value is a list of 8-bit characters, a Python \<^verbatim>\<open>str\<close> is a list
  of Unicode code points. \<open>lit\<close> writes a text constant of the source from its
  ASCII spelling.
\<close>

type_synonym bytes = string
type_synonym str = "nat list"

definition lit :: "string \<Rightarrow> str" where
  "lit s = map of_char s"

text \<open>
  The exceptions that the modelled code can meet. \<open>UnicodeDecodeError\<close> and
  \<open>UnicodeEncodeError\<close> are subclasses of \<open>ValueError\<close>; \<open>KeyboardInterrupt\<close> is
  the one that is not a subclass of \<open>Exception\<close>.
\<close>

datatype py_exn =
    ValueError
  | UnicodeDecodeError
  | UnicodeEncodeError
  | ConnectionFailure
  | PyMongoError
  | FileNotFoundError
  | IsADirectoryError
  | OSError
  | OverflowError
  | MemoryError
  | KeyboardInterrupt

fun is_ValueError :: "py_exn \<Rightarrow> bool" where
  "is_ValueError ValueError = True"
| "is_ValueError UnicodeDecodeError = True"
| "is_ValueError UnicodeEncodeError = True"
| "is_ValueError _ = False"

fun is_ConnectionFailure :: "py_exn \<Rightarrow> bool" where
  "is_ConnectionFailure ConnectionFailure = True"
| "is_ConnectionFailure _ = False"

fun is_Exception :: "py_exn \<Rightarrow> bool" where
  "is_Exception KeyboardInterrupt = False"
| "is_Exception _ = True"

section \<open>UTF-8, as \<^verbatim>\<open>bytes.decode()\<close> and \<^verbatim>\<open>str.encode()\<close> use it\<close>

definition is_cont :: "nat \<Rightarrow> bool" where
  "is_cont b \<longleftrightarrow> 128 \<le> b \<and> b \<le> 191"

text \<open>
  \<open>utf8_first b bs\<close> reads the sequence that starts with the byte \<open>b\<close>: the code
  point, or \<open>None\<close> for an ill-formed range, and how many bytes of \<open>bs\<close> belong to it.
  Overlong forms, surrogates and values above U+10FFFF are ill-formed; an ill-formed
  range ends before the first byte that cannot continue it.
\<close>

fun utf8_first :: "nat \<Rightarrow> nat list \<Rightarrow> nat option \<times> nat" where
  "utf8_first b0 bs =
    (if b0 < 128 then (Some b0, 0)
     else if 194 \<le> b0 \<and> b0 \<le> 223 then
       (case bs of
          [] \<Rightarrow> (None, 0)
        | b1 # _ \<Rightarrow>
            if is_cont b1 then (Some ((b0 - 192) * 64 + (b1 - 128)), 1) else (None, 0))
     else if 224 \<le> b0 \<and> b0 \<le> 239 then
       (case bs of
          [] \<Rightarrow> (None, 0)
        | b1 # bs1 \<Rightarrow>
            if \<not> is_cont b1 \<or> (b0 = 224 \<and> b1 < 160) \<or> (b0 = 237 \<and> 160 \<le> b1)
            then (None, 0)
            else (case bs1 of
                    [] \<Rightarrow> (None, 1)
                  | b2 # _ \<Rightarrow>
                      if is_cont b2
                      then (Some ((b0 - 224) * 4096 + (b1 - 128) * 64 + (b2 - 128)), 2)
                      else (None, 1)))
     else if 240 \<le> b0 \<and> b0 \<le> 244 then
       (case bs of
          [] \<Rightarrow> (None, 0)
        | b1 # bs1 \<Rightarrow>
            if \<not> is_cont b1 \<or> (b0 = 240 \<and> b1 < 144) \<or> (b0 = 244 \<and> 144 \<le> b1)
            then (None, 0)
            else (case bs1 of
                    [] \<Rightarrow> (None, 1)
                  | b2 # bs2 \<Rightarrow>
                      if \<not> is_cont b2 then (None, 1)
                      else (case bs2 of
                              [] \<Rightarrow> (None, 2)
                            | b3 # _ \<Rightarrow>
                                if is_cont b3
                                then (Some ((b0 - 240) * 262144 + (b1 - 128) * 4096
                                            + (b2 - 128) * 64 + (b3 - 128)), 3)
                                else (None, 2))))
     else (None, 0))"

fun utf8_scan :: "nat list \<Rightarrow> nat option list" where
  "utf8_scan [] = []"
| "utf8_scan (b # bs) =
    (case utf8_first b bs of (r, k) \<Rightarrow> r # utf8_scan (drop k bs))"

text \<open>\<^verbatim>\<open>data.decode()\<close>: strict UTF-8, raising on the first ill-formed range.\<close>

definition decode :: "bytes \<Rightarrow> py_exn + str" where
  "decode data =
    (case those (utf8_scan (map of_char data)) of
       None \<Rightarrow> Inl UnicodeDecodeError
     | Some s \<Rightarrow> Inr s)"

text \<open>
  \<^verbatim>\<open>.decode('utf-8', 'replace')\<close>, as \<^verbatim>\<open>unquote\<close> calls it: every ill-formed range
  becomes U+FFFD.
\<close>

definition decode_replace :: "nat list \<Rightarrow> str" where
  "decode_replace bs = map (\<lambda>r. case r of None \<Rightarrow> 65533 | Some c \<Rightarrow> c) (utf8_scan bs)"

fun encode_cp :: "nat \<Rightarrow> nat list option" where
  "encode_cp c =
    (if c < 128 then Some [c]
     else if c < 2048 then Some [192 + c div 64, 128 + c mod 64]
     else if c < 65536 then
       (if 55296 \<le> c \<and> c \<le> 57343 then None
        else Some [224 + c div 4096, 128 + (c div 64) mod 64, 128 + c mod 64])
     else if c < 1114112 then
       Some [240 + c div 262144, 128 + (c div 4096) mod 64,
             128 + (c div 64) mod 64, 128 + c mod 64]
     else None)"

text \<open>\<^verbatim>\<open>data.encode()\<close>: strict UTF-8, raising on a surrogate.\<close>

definition encode :: "str \<Rightarrow> py_exn + bytes" where
  "encode s =
    (case those (map encode_cp s) of
       None \<Rightarrow> Inl UnicodeEncodeError
     | Some bss \<Rightarrow> Inr (map char_of (concat bss)))"

section \<open>\<^verbatim>\<open>urllib.parse.unquote_plus\<close>\<close>

definition is_hex :: "nat \<Rightarrow> bool" where
  "is_hex c \<longleftrightarrow> (48 \<le> c \<and> c \<le> 57) \<or> (65 \<le> c \<and> c \<le> 70) \<or> (97 \<le> c \<and> c \<le> 102)"

definition hex_val :: "nat \<Rightarrow> nat" where
  "hex_val c = (if c \<le> 57 then c - 48 else if c \<le> 70 then c - 55 else c - 87)"

text \<open>
  \<^verbatim>\<open>unquote_to_bytes\<close> on an ASCII run: \<open>%\<close> followed by two hexadecimal digits is
  one byte, every other character stands for itself.
\<close>

fun unquote_to_bytes :: "nat list \<Rightarrow> nat list" where
  "unquote_to_bytes (c # h1 # h2 # rest) =
    (if c = 37 \<and> is_hex h1 \<and> is_hex h2
     then (16 * hex_val h1 + hex_val h2) # unquote_to_bytes rest
     else c # unquote_to_bytes (h1 # h2 # rest))"
| "unquote_to_bytes (c # rest) = c # unquote_to_bytes rest"
| "unquote_to_bytes [] = []"

text \<open>
  \<^verbatim>\<open>unquote\<close> unescapes each maximal ASCII run and decodes its bytes with
  \<open>errors='replace'\<close>; characters outside ASCII are kept. \<open>run\<close> is the ASCII run
  read so far.
\<close>

fun unquote_parts :: "nat list \<Rightarrow> str \<Rightarrow> str" where
  "unquote_parts run [] = decode_replace (unquote_to_bytes run)"
| "unquote_parts run (c # cs) =
    (if c < 128 then unquote_parts (run @ [c]) cs
     else decode_replace (unquote_to_bytes run) @ c # unquote_parts [] cs)"

definition unquote :: "str \<Rightarrow> str" where
  "unquote s = (if 37 \<notin> set s then s else unquote_parts [] s)"

definition unquote_plus :: "str \<Rightarrow> str" where
  "unquote_plus s = unquote (map (\<lambda>c. if c = 43 then 32 else c) s)"

section \<open>\<^verbatim>\<open>str.split\<close> with a one-character separator, and the dict\<close>

fun str_split :: "'a \<Rightarrow> 'a list \<Rightarrow> 'a list list" where
  "str_split sep [] = [[]]"
| "str_split sep (c # cs) =
    (if c = sep then [] # str_split sep cs
     else (case str_split sep cs of
             [] \<Rightarrow> [[c]]
           | p # ps \<Rightarrow> (c # p) # ps))"

text \<open>
  A dict keeps its keys in insertion order and assigning to a key that is present
  replaces the value where it stands: \<open>AList.update\<close>.
\<close>

type_synonym document = "(str \<times> str) list"

text \<open>
  \<^verbatim>\<open>{key: value for key, value in pairs}\<close>: unpacking a list that does not have
  exactly two elements raises \<open>ValueError\<close>.
\<close>

fun dict_of_pairs :: "str list list \<Rightarrow> document \<Rightarrow> py_exn + document" where
  "dict_of_pairs [] d = Inr d"
| "dict_of_pairs ([k, v] # ps) d = dict_of_pairs ps (AList.update k v d)"
| "dict_of_pairs (_ # ps) d = Inl ValueError"

section \<open>\<^verbatim>\<open>datetime.now().strftime("%Y-%m-%d %H:%M:%S.%f")\<close>\<close>

record datetime =
  year :: nat
  month :: nat
  day :: nat
  hour :: nat
  minute :: nat
  second :: nat
  microsecond :: nat

text \<open>
  A clock reading: the field ranges that a \<^verbatim>\<open>datetime\<close> object guarantees, with a
  year of four digits (below 1000 the output of \<^verbatim>\<open>%Y\<close> depends on the platform).
\<close>

definition datetime_ok :: "datetime \<Rightarrow> bool" where
  "datetime_ok t \<longleftrightarrow>
     1000 \<le> year t \<and> year t \<le> 9999 \<and> 1 \<le> month t \<and> month t \<le> 12 \<and>
     1 \<le> day t \<and> day t \<le> 31 \<and> hour t \<le> 23 \<and> minute t \<le> 59 \<and>
     second t \<le> 59 \<and> microsecond t \<le> 999999"

fun decimal :: "nat \<Rightarrow> str" where
  "decimal n = (if n < 10 then [48 + n] else decimal (n div 10) @ [48 + n mod 10])"

definition zfill :: "nat \<Rightarrow> str \<Rightarrow> str" where
  "zfill w s = replicate (w - length s) 48 @ s"

definition strftime :: "datetime \<Rightarrow> str" where
  "strftime t =
     zfill 4 (decimal (year t)) @ lit ''-'' @ zfill 2 (decimal (month t)) @ lit ''-'' @
     zfill 2 (decimal (day t)) @ lit '' '' @ zfill 2 (decimal (hour t)) @ lit '':'' @
     zfill 2 (decimal (minute t)) @ lit '':'' @ zfill 2 (decimal (second t)) @ lit ''.'' @
     zfill 6 (decimal (microsecond t))"

text \<open>
  The timestamp pattern: \<open>d\<close> in the pattern stands for one decimal digit, every other
  character for itself.
\<close>

fun matches :: "string \<Rightarrow> str \<Rightarrow> bool" where
  "matches [] [] = True"
| "matches (p # ps) (c # cs) =
    ((if p = CHR ''d'' then 48 \<le> c \<and> c \<le> 57 else c = of_char p) \<and> matches ps cs)"
| "matches _ _ = False"

definition timestamp_pattern :: string where
  "timestamp_pattern = ''dddd-dd-dd dd:dd:dd.dddddd''"

section \<open>The document store and the listener's state\<close>

text \<open>
  The store is an external service: what it does with an \<^verbatim>\<open>insert_one\<close> is an input
  of the model, either an acknowledgement or an exception raised by the driver.
  \<open>messages\<close> is the collection as this listener has filled it; the \<^verbatim>\<open>_id\<close> that the
  driver adds to a document without one is the store's business and is not listed.
\<close>

datatype driver_reply = Acknowledged | Raises py_exn

datatype log_record =
    Info_received bytes
  | Error_parsing py_exn
  | Error_connect py_exn
  | Error_save py_exn
  | Info_socket_running
  | Error_socket_server py_exn
  | Info_socket_stopped

record listener =
  messages :: "document list"
  logged :: "log_record list"
  client_closed :: bool

definition log_to :: "log_record \<Rightarrow> listener \<Rightarrow> listener" where
  "log_to r st = st\<lparr>logged := logged st @ [r]\<rparr>"

definition insert_one :: "driver_reply \<Rightarrow> document \<Rightarrow> listener \<Rightarrow> py_exn + listener" where
  "insert_one reply doc st =
    (case reply of
       Acknowledged \<Rightarrow> Inr (st\<lparr>messages := messages st @ [doc]\<rparr>)
     | Raises e \<Rightarrow> Inl e)"

section \<open>\<^verbatim>\<open>MongoDBClient.save_message_from_udp_data\<close>\<close>

text \<open>Lines 51 to 56: unescape the decoded payload, then split it into the dict.\<close>

definition parse_data :: "bytes \<Rightarrow> py_exn + document" where
  "parse_data data =
    (case decode data of
       Inl e \<Rightarrow> Inl e
     | Inr s \<Rightarrow> dict_of_pairs (map (str_split 61) (str_split 38 (unquote_plus s))) [])"

text \<open>
  \<open>now\<close> is what \<^verbatim>\<open>datetime.now()\<close> returns and \<open>reply\<close> what the store does with the
  insert. The result is the new state and the exception that leaves the method, if
  any: the three \<^verbatim>\<open>except\<close> clauses are tried in the order of the source.
\<close>

definition save_message_from_udp_data ::
  "datetime \<Rightarrow> driver_reply \<Rightarrow> bytes \<Rightarrow> listener \<Rightarrow> listener \<times> py_exn option" where
  "save_message_from_udp_data now reply data st =
    (case (case parse_data data of
             Inl e \<Rightarrow> Inl e
           | Inr parsed_data \<Rightarrow>
               insert_one reply (AList.update (lit ''date'') (strftime now) parsed_data) st) of
       Inr st' \<Rightarrow> (st', None)
     | Inl e \<Rightarrow>
         if is_ValueError e then (log_to (Error_parsing e) st, None)
         else if is_ConnectionFailure e then (log_to (Error_connect e) st, None)
         else if is_Exception e then (log_to (Error_save e) st, None)
         else (st, Some e))"

section \<open>\<^verbatim>\<open>run_socket_server\<close>\<close>

text \<open>
  One event is one return of \<^verbatim>\<open>sock.recvfrom\<close>: a datagram, with the clock and the
  store's reply of that iteration, or an exception. With no event left the loop is
  blocked in \<^verbatim>\<open>recvfrom\<close>.
\<close>

datatype event = Datagram bytes datetime driver_reply | Recv_raises py_exn

definition BUFFER_SIZE :: nat where
  "BUFFER_SIZE = 1024"

fun receive_loop :: "event list \<Rightarrow> listener \<Rightarrow> listener \<times> py_exn option" where
  "receive_loop [] st = (st, None)"
| "receive_loop (Recv_raises e # evs) st = (st, Some e)"
| "receive_loop (Datagram payload now reply # evs) st =
    (let data = take BUFFER_SIZE payload;
         st1 = log_to (Info_received data) st
     in case save_message_from_udp_data now reply data st1 of
          (st2, None) \<Rightarrow> receive_loop evs st2
        | (st2, Some e) \<Rightarrow> (st2, Some e))"

definition run_socket_server :: "event list \<Rightarrow> listener \<Rightarrow> listener" where
  "run_socket_server evs st =
    (case receive_loop evs (log_to Info_socket_running st) of
       (st1, None) \<Rightarrow> st1
     | (st1, Some e) \<Rightarrow>
         log_to Info_socket_stopped
           ((if is_Exception e then log_to (Error_socket_server e) st1 else st1)
              \<lparr>client_closed := True\<rparr>))"

section \<open>The HTTP handler \<^verbatim>\<open>CatFramework\<close>\<close>

text \<open>
  The handler's surroundings: \<^verbatim>\<open>urlparse(...).path\<close>, the file system behind
  \<^verbatim>\<open>Path.exists\<close> and \<^verbatim>\<open>open\<close>, \<^verbatim>\<open>mimetypes.guess_type\<close>, and what the operating
  system refuses: \<open>stat_fault\<close> is an \<open>OSError\<close> that \<^verbatim>\<open>Path.exists\<close> passes on (a name
  that is too long, a directory that may not be searched), \<open>alloc_fault\<close> a failure to
  allocate a read buffer of the given size, \<open>socket_fault\<close> a failure to create the
  UDP socket and \<open>sendto_fault\<close> a refused datagram. A path is the expression the
  source builds it with.
\<close>

datatype pathlib_path = BASE_DIR | Joinpath pathlib_path string

definition TEMPLATES_DIR :: pathlib_path where
  "TEMPLATES_DIR = Joinpath BASE_DIR ''templates''"

datatype node = File bytes | Directory

record environment =
  urlparse_path :: "string \<Rightarrow> py_exn + string"
  lookup :: "pathlib_path \<Rightarrow> node option"
  guess_type :: "pathlib_path \<Rightarrow> string option"
  stat_fault :: "pathlib_path \<Rightarrow> py_exn option"
  alloc_fault :: "nat \<Rightarrow> py_exn option"
  socket_fault :: "py_exn option"
  sendto_fault :: "bytes \<Rightarrow> py_exn option"

record request =
  path :: string
  content_length :: "string option"
  rfile :: bytes

text \<open>
  What the handler writes to the client and sends over UDP. The \<open>Server\<close> and \<open>Date\<close>
  headers that \<^verbatim>\<open>send_response\<close> adds by itself are not listed.
\<close>

datatype wire = Status nat | Header string string | End_headers | Body bytes

record handler =
  wfile :: "wire list"
  datagrams :: "(bytes \<times> string \<times> nat) list"

definition SOCKET_HOST :: string where
  "SOCKET_HOST = []"

definition SOCKET_PORT :: nat where
  "SOCKET_PORT = 5000"

definition emit :: "wire \<Rightarrow> handler \<Rightarrow> handler" where
  "emit w h = h\<lparr>wfile := wfile h @ [w]\<rparr>"

text \<open>
  \<^verbatim>\<open>Path.exists()\<close>: false when nothing is there, true for a file or a directory, and
  an \<open>OSError\<close> of \<^verbatim>\<open>stat\<close> other than "not there" is raised again.
\<close>

definition exists :: "environment \<Rightarrow> pathlib_path \<Rightarrow> py_exn + bool" where
  "exists env p =
    (case stat_fault env p of
       Some e \<Rightarrow> Inl e
     | None \<Rightarrow> Inr (lookup env p \<noteq> None))"

definition open_rb :: "environment \<Rightarrow> pathlib_path \<Rightarrow> py_exn + bytes" where
  "open_rb env p =
    (case lookup env p of
       None \<Rightarrow> Inl FileNotFoundError
     | Some Directory \<Rightarrow> Inl IsADirectoryError
     | Some (File content) \<Rightarrow> Inr content)"

definition send_html :: "environment \<Rightarrow> string \<Rightarrow> nat \<Rightarrow> handler \<Rightarrow> handler \<times> py_exn option" where
  "send_html env filename status h =
    (let h1 = emit End_headers (emit (Header ''Content-type'' ''text/html'') (emit (Status status) h))
     in case open_rb env (Joinpath TEMPLATES_DIR filename) of
          Inl e \<Rightarrow> (h1, Some e)
        | Inr content \<Rightarrow> (emit (Body content) h1, None))"

text \<open>\<^verbatim>\<open>mimetypes.guess_type(filename)[0] or "text/plain"\<close>\<close>

definition or_text_plain :: "string option \<Rightarrow> string" where
  "or_text_plain guess =
    (case guess of None \<Rightarrow> ''text/plain'' | Some t \<Rightarrow> if t = [] then ''text/plain'' else t)"

definition send_static :: "environment \<Rightarrow> pathlib_path \<Rightarrow> nat \<Rightarrow> handler \<Rightarrow> handler \<times> py_exn option" where
  "send_static env filename status h =
    (let mimetype = or_text_plain (guess_type env filename);
         h1 = emit End_headers (emit (Header ''Content-type'' mimetype) (emit (Status status) h))
     in case open_rb env filename of
          Inl e \<Rightarrow> (h1, Some e)
        | Inr content \<Rightarrow> (emit (Body content) h1, None))"

definition do_GET :: "environment \<Rightarrow> request \<Rightarrow> handler \<Rightarrow> handler \<times> py_exn option" where
  "do_GET env req h =
    (case urlparse_path env (path req) of
       Inl e \<Rightarrow> (h, Some e)
     | Inr router \<Rightarrow>
         if router = ''/'' then send_html env ''index.html'' 200 h
         else (let file = Joinpath BASE_DIR (drop 1 router)
               in case exists env file of
                    Inl e \<Rightarrow> (h, Some e)
                  | Inr found \<Rightarrow>
                      if found then send_static env file 200 h
                      else send_html env ''error.html'' 404 h))"

text \<open>
  \<^verbatim>\<open>int(...)\<close> on a header value (Latin-1 text): surrounding whitespace, an optional
  sign, decimal digits with single underscores between them, at most 4300 digits.
  The whitespace that \<^verbatim>\<open>int\<close> strips is tab to carriage return and the space, and of
  the characters beyond ASCII the next-line and the no-break space; the separators
  \<open>0x1C\<close> to \<open>0x1F\<close> are not stripped.
\<close>

definition is_space :: "char \<Rightarrow> bool" where
  "is_space c \<longleftrightarrow>
     (let n = (of_char c :: nat)
      in (9 \<le> n \<and> n \<le> 13) \<or> n = 32 \<or> n = 133 \<or> n = 160)"

definition is_digit :: "char \<Rightarrow> bool" where
  "is_digit c \<longleftrightarrow> 48 \<le> (of_char c :: nat) \<and> (of_char c :: nat) \<le> 57"

fun digits_ok :: "bool \<Rightarrow> string \<Rightarrow> bool" where
  "digits_ok prev [] = prev"
| "digits_ok prev (c # cs) =
    (if is_digit c then digits_ok True cs
     else c = CHR ''_'' \<and> prev \<and> digits_ok False cs)"

definition digits_value :: "string \<Rightarrow> int" where
  "digits_value ds = foldl (\<lambda>a c. 10 * a + (of_char c - 48)) 0 (filter is_digit ds)"

definition py_int :: "string \<Rightarrow> py_exn + int" where
  "py_int v =
    (let t = rev (dropWhile is_space (rev (dropWhile is_space v)));
         neg = (t \<noteq> [] \<and> hd t = CHR ''-'');
         ds = (if t \<noteq> [] \<and> (hd t = CHR ''-'' \<or> hd t = CHR ''+'') then tl t else t)
     in if digits_ok False ds \<and> length (filter is_digit ds) \<le> 4300
        then Inr (if neg then - digits_value ds else digits_value ds)
        else Inl ValueError)"

text \<open>
  \<^verbatim>\<open>self.rfile.read(size)\<close> on a buffered reader (\<open>sz\<close> is the source's \<^verbatim>\<open>size\<close>);
  \<open>stream\<close> is what the client sends before it closes the connection. A size that
  does not fit a signed 64-bit integer raises \<open>OverflowError\<close>, another size below
  \<open>-1\<close> raises \<open>ValueError\<close>, \<open>-1\<close> reads to the end, and otherwise a buffer of that
  size is allocated first, which the system may refuse.
\<close>

definition rfile_read :: "environment \<Rightarrow> int \<Rightarrow> bytes \<Rightarrow> py_exn + bytes" where
  "rfile_read env sz stream =
    (if sz < - (2 ^ 63) \<or> 2 ^ 63 \<le> sz then Inl OverflowError
     else if sz < - 1 then Inl ValueError
     else if sz = - 1 then Inr stream
     else (case alloc_fault env (nat sz) of
             Some e \<Rightarrow> Inl e
           | None \<Rightarrow> Inr (take (nat sz) stream)))"

text \<open>\<^verbatim>\<open>int(self.headers.get("Content-Length", 0))\<close>\<close>

definition content_size :: "request \<Rightarrow> py_exn + int" where
  "content_size req = (case content_length req of None \<Rightarrow> Inr 0 | Some v \<Rightarrow> py_int v)"

definition do_POST :: "environment \<Rightarrow> request \<Rightarrow> handler \<Rightarrow> handler \<times> py_exn option" where
  "do_POST env req h =
    (case content_size req of
       Inl e \<Rightarrow> (h, Some e)
     | Inr sz \<Rightarrow>
    (case rfile_read env sz (rfile req) of
       Inl e \<Rightarrow> (h, Some e)
     | Inr raw \<Rightarrow>
    (case decode raw of
       Inl e \<Rightarrow> (h, Some e)
     | Inr data \<Rightarrow>
    (case encode data of
       Inl e \<Rightarrow> (h, Some e)
     | Inr payload \<Rightarrow>
    (case socket_fault env of
       Some e \<Rightarrow> (h, Some e)
     | None \<Rightarrow>
    (case sendto_fault env payload of
       Some e \<Rightarrow> (h, Some e)
     | None \<Rightarrow>
         (emit End_headers (emit (Header ''Location'' ''/'') (emit (Status 302)
            (h\<lparr>datagrams := datagrams h @ [(payload, SOCKET_HOST, SOCKET_PORT)]\<rparr>))),
          None)))))))"

section \<open>Notions used to state the properties\<close>

text \<open>
  Splitting a pair on its first \<open>=\<close>, as the specification words it; compared below
  with what \<open>str_split\<close> and \<open>dict_of_pairs\<close> do.
\<close>

definition first_eq_split :: "str \<Rightarrow> str \<times> str" where
  "first_eq_split p = (takeWhile (\<lambda>c. c \<noteq> 61) p, tl (dropWhile (\<lambda>c. c \<noteq> 61) p))"

definition has_date :: "document \<Rightarrow> bool" where
  "has_date doc =
    (case map_of doc (lit ''date'') of
       None \<Rightarrow> False
     | Some ts \<Rightarrow> matches timestamp_pattern ts)"

fun event_ok :: "event \<Rightarrow> bool" where
  "event_ok (Datagram payload now reply) = datetime_ok now"
| "event_ok (Recv_raises e) = True"

definition started :: listener where
  "started = \<lparr>messages = [], logged = [], client_closed = False\<rparr>"

text \<open>A clock reading used in the examples.\<close>

definition noon :: datetime where
  "noon = \<lparr>year = 2024, month = 2, day = 29, hour = 12, minute = 0, second = 7, microsecond = 4200\<rparr>"

definition fresh :: handler where
  "fresh = \<lparr>wfile = [], datagrams = []\<rparr>"

definition statuses :: "handler \<Rightarrow> nat list" where
  "statuses h = concat (map (\<lambda>w. case w of Status c \<Rightarrow> [c] | _ \<Rightarrow> []) (wfile h))"

text \<open>
  The two servers together: a POST is handled by a new handler, and the datagrams it
  sent reach the listener, which meets the clock reading \<open>now\<close> and the store's
  \<open>reply\<close>.
\<close>

definition relay :: "handler \<Rightarrow> datetime \<Rightarrow> driver_reply \<Rightarrow> event list" where
  "relay h now reply = map (\<lambda>(payload, addr). Datagram payload now reply) (datagrams h)"

definition submit ::
  "environment \<Rightarrow> request \<Rightarrow> datetime \<Rightarrow> driver_reply \<Rightarrow> listener \<Rightarrow>
     (handler \<times> py_exn option) \<times> (listener \<times> py_exn option)" where
  "submit env req now reply st =
    (let r = do_POST env req fresh in (r, receive_loop (relay (fst r) now reply) st))"

text \<open>
  A deployment used in the examples: the two templates, one style sheet, and the
  directories that hold them; a file name of more than 255 characters is refused by
  the file system. Its \<open>urlparse_path\<close> is right for the request targets of the
  examples, which have no scheme, host, parameters or fragment.
\<close>

definition site :: environment where
  "site =
    \<lparr>urlparse_path = (\<lambda>target. Inr (takeWhile (\<lambda>c. c \<noteq> CHR ''?'') target)),
     lookup = (\<lambda>p.
       if p = Joinpath TEMPLATES_DIR ''index.html'' then Some (File ''<h1>Cats</h1>'')
       else if p = Joinpath TEMPLATES_DIR ''error.html'' then Some (File ''<h1>Not found</h1>'')
       else if p = Joinpath BASE_DIR ''style.css'' then Some (File ''body {}'')
       else if p = Joinpath BASE_DIR [] then Some Directory
       else if p = Joinpath BASE_DIR ''templates'' then Some Directory
       else None),
     guess_type = (\<lambda>p. if p = Joinpath BASE_DIR ''style.css'' then Some ''text/css'' else None),
     stat_fault = (\<lambda>p.
       case p of
         BASE_DIR \<Rightarrow> None
       | Joinpath d name \<Rightarrow>
           if 255 < length name \<and> CHR ''/'' \<notin> set name then Some OSError else None),
     alloc_fault = (\<lambda>n. None),
     socket_fault = None,
     sendto_fault = (\<lambda>payload. None)\<rparr>"

section \<open>Splitting and the dict\<close>

declare decimal.simps [simp del]
declare utf8_first.simps [simp del]
declare encode_cp.simps [simp del]

lemma str_split_not_Nil: "str_split c xs \<noteq> []"
  by (induction xs) (auto split: list.splits)

lemma str_split_no_sep: "c \<notin> set xs \<Longrightarrow> str_split c xs = [xs]"
  by (induction xs) auto

lemma str_split_append_sep: "c \<notin> set xs \<Longrightarrow> str_split c (xs @ c # ys) = xs # str_split c ys"
  by (induction xs) auto

lemma length_str_split: "length (str_split c xs) = Suc (count_list xs c)"
  by (induction xs) (auto split: list.splits simp: str_split_not_Nil)

lemma count_list_0: "count_list xs c = 0 \<longleftrightarrow> c \<notin> set xs"
  by (induction xs) auto

lemma str_split_two:
  assumes "count_list p c = Suc 0"
  shows "str_split c p = [takeWhile (\<lambda>x. x \<noteq> c) p, tl (dropWhile (\<lambda>x. x \<noteq> c) p)]"
proof -
  let ?a = "takeWhile (\<lambda>x. x \<noteq> c) p" and ?r = "dropWhile (\<lambda>x. x \<noteq> c) p"
  have mem: "c \<in> set p"
    using assms count_list_0 [of p c] by auto
  then have "?r \<noteq> []" by (auto simp: dropWhile_eq_Nil_conv)
  moreover have "?r \<noteq> [] \<Longrightarrow> hd ?r = c"
    using hd_dropWhile [of "\<lambda>x. x \<noteq> c" p] by simp
  ultimately have r: "?r = c # tl ?r" by (cases ?r) auto
  have p: "p = ?a @ c # tl ?r"
    using r takeWhile_dropWhile_id [of "\<lambda>x. x \<noteq> c" p] by metis
  have a: "c \<notin> set ?a"
    by (auto dest: set_takeWhileD)
  have "count_list p c = count_list ?a c + Suc (count_list (tl ?r) c)"
    by (subst p) simp
  with assms have "count_list (tl ?r) c = 0" by simp
  then have b: "c \<notin> set (tl ?r)" by (simp add: count_list_0)
  have "str_split c p = ?a # str_split c (tl ?r)"
    by (subst p) (rule str_split_append_sep [OF a])
  with b show ?thesis by (simp add: str_split_no_sep)
qed

lemma dict_of_pairs_ok:
  "\<forall>p \<in> set ps. length p = 2 \<Longrightarrow>
   dict_of_pairs ps d = Inr (fold (\<lambda>p. AList.update (p ! 0) (p ! 1)) ps d)"
proof (induction ps d rule: dict_of_pairs.induct)
  case (1 d) show ?case by simp
next
  case (2 k v ps d) then show ?case by simp
qed auto

lemma dict_of_pairs_bad:
  "\<exists>p \<in> set ps. length p \<noteq> 2 \<Longrightarrow> dict_of_pairs ps d = Inl ValueError"
  by (induction ps d rule: dict_of_pairs.induct) auto

lemma map_of_fold_update:
  "map_of (fold (\<lambda>p. AList.update (fst (f p)) (snd (f p))) ps d) k =
     (case map_of (rev (map f ps)) k of Some v \<Rightarrow> Some v | None \<Rightarrow> map_of d k)"
proof (induction ps arbitrary: d)
  case Nil show ?case by simp
next
  case (Cons p ps)
  show ?case
    by (simp add: Cons.IH update_conv' map_add_def split: option.splits)
qed

section \<open>The timestamp has the fixed format\<close>

lemma decimal_digits: "c \<in> set (decimal n) \<Longrightarrow> 48 \<le> c \<and> c \<le> 57"
proof (induction n rule: decimal.induct)
  case (1 n)
  show ?case
  proof (cases "n < 10")
    case True
    with "1.prems" show ?thesis by (simp add: decimal.simps [of n])
  next
    case False
    with "1.prems" "1.IH" show ?thesis
      by (auto simp: decimal.simps [of n]) 
  qed
qed

lemma length_decimal: "n < 10 ^ w \<Longrightarrow> 0 < w \<Longrightarrow> length (decimal n) \<le> w"
proof (induction w arbitrary: n)
  case 0 then show ?case by simp
next
  case (Suc w)
  show ?case
  proof (cases "n < 10")
    case True then show ?thesis by (simp add: decimal.simps [of n])
  next
    case False
    then have w: "0 < w" using Suc.prems by (cases w) auto
    have "n div 10 < 10 ^ w" using Suc.prems by (simp add: less_mult_imp_div_less mult.commute)
    from Suc.IH [OF this w] False show ?thesis by (simp add: decimal.simps [of n])
  qed
qed

lemma zfill_digits:
  assumes "n < 10 ^ w" "0 < w"
  shows "length (zfill w (decimal n)) = w \<and> (\<forall>c \<in> set (zfill w (decimal n)). 48 \<le> c \<and> c \<le> 57)"
  using length_decimal [OF assms] decimal_digits [of _ n]
  by (auto simp: zfill_def)

lemma matches_digits:
  "length xs = k \<Longrightarrow> \<forall>c \<in> set xs. 48 \<le> c \<and> c \<le> 57 \<Longrightarrow>
   matches (replicate k CHR ''d'' @ ps) (xs @ cs) = matches ps cs"
  by (induction xs arbitrary: k) auto

lemma matches_zfill:
  "n < 10 ^ w \<Longrightarrow> 0 < w \<Longrightarrow>
   matches (replicate w CHR ''d'' @ ps) (zfill w (decimal n) @ cs) = matches ps cs"
  using zfill_digits [of n w] by (intro matches_digits) auto

lemma strftime_matches: 
  assumes "datetime_ok t" shows "matches timestamp_pattern (strftime t)"
proof -
  have p: "timestamp_pattern =
      replicate 4 CHR ''d'' @ CHR ''-'' # replicate 2 CHR ''d'' @ CHR ''-'' #
      replicate 2 CHR ''d'' @ CHR '' '' # replicate 2 CHR ''d'' @ CHR '':'' #
      replicate 2 CHR ''d'' @ CHR '':'' # replicate 2 CHR ''d'' @ CHR ''.'' #
      replicate 6 CHR ''d'' @ []"
    by (simp add: timestamp_pattern_def numeral_eq_Suc)
  have b: "year t < 10 ^ 4" "month t < 10 ^ 2" "day t < 10 ^ 2" "hour t < 10 ^ 2"
    "minute t < 10 ^ 2" "second t < 10 ^ 2" "microsecond t < 10 ^ 6"
    using assms by (simp_all add: datetime_ok_def)
  have s: "strftime t =
     zfill 4 (decimal (year t)) @ 45 # zfill 2 (decimal (month t)) @ 45 #
     zfill 2 (decimal (day t)) @ 32 # zfill 2 (decimal (hour t)) @ 58 #
     zfill 2 (decimal (minute t)) @ 58 # zfill 2 (decimal (second t)) @ 46 #
     zfill 6 (decimal (microsecond t)) @ []"
    by (simp add: strftime_def lit_def)
  show ?thesis
    unfolding p s using b by (simp only: matches_zfill matches.simps) simp
qed

lemmas run_simps =
  lit_def decode_def utf8_first.simps is_cont_def unquote_plus_def unquote_def
  is_hex_def hex_val_def decode_replace_def parse_data_def
  save_message_from_udp_data_def insert_one_def log_to_def BUFFER_SIZE_def
  started_def

section \<open>Evaluating the model on concrete inputs\<close>

lemma replicate_numeral: "replicate (numeral k) x = x # replicate (pred_numeral k) x"
  by (simp add: numeral_eq_Suc)

lemma strftime_noon: "strftime noon = lit ''2024-02-29 12:00:07.004200''"
  by (simp add: noon_def strftime_def zfill_def decimal.simps lit_def replicate_numeral)

section \<open>Malformed payloads\<close>

lemma save_parse_error:
  assumes "parse_data data = Inl e" "is_ValueError e"
  shows "save_message_from_udp_data now reply data st = (log_to (Error_parsing e) st, None)"
  using assms by (simp add: save_message_from_udp_data_def)

lemma parse_data_missing_separator:
  assumes "decode data = Inr s" "p \<in> set (str_split 38 (unquote_plus s))" "61 \<notin> set p"
  shows "parse_data data = Inl ValueError"
proof -
  have "length (str_split 61 p) \<noteq> 2"
    using assms(3) by (simp add: str_split_no_sep)
  with assms(2) have "\<exists>q \<in> set (map (str_split 61) (str_split 38 (unquote_plus s))). length q \<noteq> 2"
    by auto
  then show ?thesis
    using assms(1) by (simp add: parse_data_def dict_of_pairs_bad)
qed

text \<open>
  C3: when one of the \<open>&\<close>-separated pairs of the unescaped payload has no \<open>=\<close>, the
  whole record is rejected: nothing is inserted into the store (also not the well-formed
  pairs), the \<open>ValueError\<close> is logged as a parsing error, and the loop goes on with the
  events that follow.
\<close>

theorem missing_separator_rejected:
  assumes "data = take BUFFER_SIZE payload"
    and "decode data = Inr s"
    and "p \<in> set (str_split 38 (unquote_plus s))"
    and "61 \<notin> set p"
  shows "save_message_from_udp_data now reply data st = (log_to (Error_parsing ValueError) st, None)
    \<and> messages (log_to (Error_parsing ValueError) st) = messages st
    \<and> logged (log_to (Error_parsing ValueError) st) = logged st @ [Error_parsing ValueError]
    \<and> receive_loop (Datagram payload now reply # evs) st =
        receive_loop evs (log_to (Error_parsing ValueError) (log_to (Info_received data) st))"
proof -
  have p: "parse_data data = Inl ValueError"
    by (rule parse_data_missing_separator [OF assms(2-4)])
  have s: "\<And>st. save_message_from_udp_data now reply data st = (log_to (Error_parsing ValueError) st, None)"
    by (rule save_parse_error [OF p]) simp
  show ?thesis
    by (simp add: s log_to_def Let_def assms(1) [symmetric])
qed

theorem missing_separator_rejected_witness:
  "decode ''novalue&k=v'' = Inr (lit ''novalue&k=v'')
   \<and> lit ''novalue'' \<in> set (str_split 38 (unquote_plus (lit ''novalue&k=v'')))
   \<and> save_message_from_udp_data noon Acknowledged ''novalue&k=v'' started =
       (started\<lparr>logged := [Error_parsing ValueError]\<rparr>, None)
   \<and> receive_loop [Datagram ''novalue&k=v'' noon Acknowledged, Datagram ''k=v'' noon Acknowledged] started =
       (\<lparr>messages = [[(lit ''k'', lit ''v''), (lit ''date'', lit ''2024-02-29 12:00:07.004200'')]],
         logged = [Info_received ''novalue&k=v'', Error_parsing ValueError, Info_received ''k=v''],
         client_closed = False\<rparr>, None)"
proof -
  have d: "decode ''novalue&k=v'' = Inr (lit ''novalue&k=v'')"
    by (simp add: run_simps)
  have t: "''novalue&k=v'' = take BUFFER_SIZE ''novalue&k=v''"
    by (simp add: BUFFER_SIZE_def)
  have m: "lit ''novalue'' \<in> set (str_split 38 (unquote_plus (lit ''novalue&k=v'')))"
    by (simp add: run_simps)
  have n: "61 \<notin> set (lit ''novalue'')"
    by (simp add: lit_def)
  have next_one: "save_message_from_udp_data noon Acknowledged ''k=v'' st =
      (st\<lparr>messages := messages st @ [[(lit ''k'', lit ''v''), (lit ''date'', lit ''2024-02-29 12:00:07.004200'')]]\<rparr>, None)" for st
    by (simp add: run_simps strftime_noon)
  note w = missing_separator_rejected [OF t d m n, of noon Acknowledged started
      "[Datagram ''k=v'' noon Acknowledged]"]
  have a: "save_message_from_udp_data noon Acknowledged ''novalue&k=v'' started =
       (started\<lparr>logged := [Error_parsing ValueError]\<rparr>, None)"
    using w by (simp add: log_to_def started_def)
  have "receive_loop [Datagram ''novalue&k=v'' noon Acknowledged, Datagram ''k=v'' noon Acknowledged] started =
      receive_loop [Datagram ''k=v'' noon Acknowledged]
        (log_to (Error_parsing ValueError) (log_to (Info_received ''novalue&k=v'') started))"
    by (rule w [THEN conjunct2, THEN conjunct2, THEN conjunct2])
  also have "\<dots> = (\<lparr>messages = [[(lit ''k'', lit ''v''), (lit ''date'', lit ''2024-02-29 12:00:07.004200'')]],
         logged = [Info_received ''novalue&k=v'', Error_parsing ValueError, Info_received ''k=v''],
         client_closed = False\<rparr>, None)"
    by (simp add: next_one Let_def BUFFER_SIZE_def log_to_def started_def)
  finally show ?thesis
    using d m a by simp
qed

section \<open>What the decoder accepts\<close>

lemma parse_data_wellformed:
  assumes "decode data = Inr s"
  shows "parse_data data =
    (if \<forall>p \<in> set (str_split 38 (unquote_plus s)). count_list p 61 = 1
     then Inr (fold (\<lambda>p. AList.update (fst (first_eq_split p)) (snd (first_eq_split p)))
                 (str_split 38 (unquote_plus s)) [])
     else Inl ValueError)"
proof (cases "\<forall>p \<in> set (str_split 38 (unquote_plus s)). count_list p 61 = 1")
  case True
  let ?ps = "str_split 38 (unquote_plus s)"
  have two: "\<forall>q \<in> set (map (str_split 61) ?ps). length q = 2"
    using True by (auto simp: length_str_split)
  have "fold (\<lambda>q. AList.update (q ! 0) (q ! 1)) (map (str_split 61) ?ps) [] =
        fold (\<lambda>p. AList.update (fst (first_eq_split p)) (snd (first_eq_split p))) ?ps []"
    unfolding fold_map
  proof (rule fold_cong [OF refl refl])
    fix p assume "p \<in> set ?ps"
    with True have "count_list p 61 = Suc 0" by simp
    from str_split_two [OF this]
    show "((\<lambda>q. AList.update (q ! 0) (q ! 1)) \<circ> str_split 61) p =
          AList.update (fst (first_eq_split p)) (snd (first_eq_split p))"
      by (simp add: first_eq_split_def)
  qed
  with dict_of_pairs_ok [OF two, of "[]"] assms True show ?thesis
    by (simp add: parse_data_def)
next
  case False
  then obtain p where "p \<in> set (str_split 38 (unquote_plus s))" "count_list p 61 \<noteq> 1"
    by auto
  then have "\<exists>q \<in> set (map (str_split 61) (str_split 38 (unquote_plus s))). length q \<noteq> 2"
    by (auto simp: length_str_split)
  from dict_of_pairs_bad [OF this] assms False show ?thesis
    by (simp add: parse_data_def)
qed

lemma save_acknowledged:
  assumes "parse_data data = Inr parsed"
  shows "save_message_from_udp_data now Acknowledged data st =
    (st\<lparr>messages := messages st @ [AList.update (lit ''date'') (strftime now) parsed]\<rparr>, None)"
  using assms by (simp add: save_message_from_udp_data_def insert_one_def)

text \<open>
  C10: the empty payload decodes to the empty text, which splits into one pair with
  no \<open>=\<close>; the record is rejected, nothing is inserted, the error is logged and the loop
  goes on with the next event.
\<close>

theorem empty_payload_rejected:
  "decode [] = Inr []
   \<and> map (str_split 61) (str_split 38 (unquote_plus [])) = [[[]]]
   \<and> save_message_from_udp_data now reply [] st = (log_to (Error_parsing ValueError) st, None)
   \<and> messages (log_to (Error_parsing ValueError) st) = messages st
   \<and> receive_loop (Datagram [] now reply # evs) st =
       receive_loop evs (log_to (Error_parsing ValueError) (log_to (Info_received []) st))"
proof -
  have d: "decode [] = Inr []" by (simp add: decode_def)
  have u: "unquote_plus [] = []" by (simp add: unquote_plus_def unquote_def)
  have p: "parse_data [] = Inl ValueError" by (simp add: parse_data_def d u)
  have s: "save_message_from_udp_data now reply [] st = (log_to (Error_parsing ValueError) st, None)" for st
    by (rule save_parse_error [OF p]) simp
  show ?thesis by (simp add: d u s log_to_def)
qed

theorem empty_payload_rejected_witness:
  "save_message_from_udp_data noon Acknowledged [] started =
     (started\<lparr>logged := [Error_parsing ValueError]\<rparr>, None)
   \<and> receive_loop [Datagram [] noon Acknowledged] started =
     (started\<lparr>logged := [Info_received [], Error_parsing ValueError]\<rparr>, None)"
  using empty_payload_rejected [of noon Acknowledged started "[]"]
  by (simp add: log_to_def started_def)

text \<open>
  C2, as the code has it: the payload is decoded as UTF-8 and URL-unescaped (with \<open>+\<close>
  as a space), the text is split on \<open>&\<close>, and each pair is split on every \<open>=\<close> and
  must give exactly two pieces. So the decode succeeds exactly when every pair contains
  one \<open>=\<close>, and then each pair contributes the text before its \<open>=\<close> as key and the text
  after it as value; a pair with a second \<open>=\<close>, such as \<open>k=a=b\<close>, makes the decode fail
  with \<open>ValueError\<close>.
\<close>

theorem pairs_split_on_every_separator:
  "parse_data data =
    (case decode data of
       Inl e \<Rightarrow> Inl e
     | Inr s \<Rightarrow>
         if \<forall>p \<in> set (str_split 38 (unquote_plus s)). count_list p 61 = 1
         then Inr (fold (\<lambda>p. AList.update (fst (first_eq_split p)) (snd (first_eq_split p)))
                     (str_split 38 (unquote_plus s)) [])
         else Inl ValueError)"
proof (cases "decode data")
  case (Inl e) then show ?thesis by (simp add: parse_data_def)
next
  case (Inr s) with parse_data_wellformed [OF Inr] show ?thesis by simp
qed

theorem pairs_split_on_every_separator_witness:
  "parse_data ''k=v&x=a+b%21'' = Inr [(lit ''k'', lit ''v''), (lit ''x'', lit ''a b!'')]"
  using pairs_split_on_every_separator [of "''k=v&x=a+b%21''"]
  by (simp add: lit_def decode_def utf8_first.simps is_cont_def unquote_plus_def unquote_def
      is_hex_def hex_val_def decode_replace_def first_eq_split_def)

theorem value_with_separator_counterexample:
  "parse_data ''k=a=b'' = Inl ValueError
   \<and> save_message_from_udp_data noon Acknowledged ''k=a=b'' started =
       (started\<lparr>logged := [Error_parsing ValueError]\<rparr>, None)"
  by (simp add: run_simps)

section \<open>The fields of a persisted record\<close>

text \<open>
  C8, as the code has it: for every payload that decodes (valid UTF-8, each pair of the
  unescaped text with exactly one \<open>=\<close>), also one that has a key more than once, one
  document is inserted, without an error, and it maps every key other than the
  reserved \<open>date\<close> to the value of the last pair with that key; \<open>date\<close> holds the
  injected timestamp, whatever the payload says.
\<close>

theorem duplicate_keys_last_write_wins:
  assumes "decode data = Inr s"
    and "\<forall>p \<in> set (str_split 38 (unquote_plus s)). count_list p 61 = 1"
    and "k \<noteq> lit ''date''"
  shows "\<exists>doc. save_message_from_udp_data now Acknowledged data st =
            (st\<lparr>messages := messages st @ [doc]\<rparr>, None)
          \<and> map_of doc k = map_of (rev (map first_eq_split (str_split 38 (unquote_plus s)))) k
          \<and> map_of doc (lit ''date'') = Some (strftime now)"
proof -
  let ?parsed = "fold (\<lambda>p. AList.update (fst (first_eq_split p)) (snd (first_eq_split p)))
                   (str_split 38 (unquote_plus s)) []"
  let ?doc = "AList.update (lit ''date'') (strftime now) ?parsed"
  have "parse_data data = Inr ?parsed"
    using parse_data_wellformed [OF assms(1)] assms(2) by simp
  then have "save_message_from_udp_data now Acknowledged data st =
      (st\<lparr>messages := messages st @ [?doc]\<rparr>, None)"
    by (rule save_acknowledged)
  moreover have "map_of ?doc k = map_of (rev (map first_eq_split (str_split 38 (unquote_plus s)))) k"
    using assms(3) by (simp add: update_conv' map_of_fold_update split: option.splits)
  moreover have "map_of ?doc (lit ''date'') = Some (strftime now)"
    by (simp add: update_conv')
  ultimately show ?thesis by blast
qed

theorem duplicate_keys_last_write_wins_witness:
  "\<exists>doc. save_message_from_udp_data noon Acknowledged ''k=1&k=2'' started =
            (started\<lparr>messages := [doc]\<rparr>, None)
          \<and> map_of doc (lit ''k'') = Some (lit ''2'')"
proof -
  have d: "decode ''k=1&k=2'' = Inr (lit ''k=1&k=2'')"
    by (simp add: run_simps)
  have u: "str_split 38 (unquote_plus (lit ''k=1&k=2'')) = [lit ''k=1'', lit ''k=2'']"
    by (simp add: run_simps)
  have w: "\<forall>p \<in> set (str_split 38 (unquote_plus (lit ''k=1&k=2''))). count_list p 61 = 1"
    unfolding u by (simp add: lit_def)
  have k: "lit ''k'' \<noteq> lit ''date''"
    by (simp add: lit_def)
  have v: "map_of (rev (map first_eq_split (str_split 38 (unquote_plus (lit ''k=1&k=2''))))) (lit ''k'')
      = Some (lit ''2'')"
    unfolding u by (simp add: lit_def first_eq_split_def)
  show ?thesis
    using duplicate_keys_last_write_wins [OF d w k, of noon started]
    unfolding v by (auto simp add: started_def)
qed

theorem duplicate_date_counterexample:
  "save_message_from_udp_data noon Acknowledged ''date=1&date=2'' started =
     (started\<lparr>messages := [[(lit ''date'', lit ''2024-02-29 12:00:07.004200'')]]\<rparr>, None)
   \<and> lit ''2024-02-29 12:00:07.004200'' \<noteq> lit ''2''
   \<and> save_message_from_udp_data noon Acknowledged ''k=1&k=2&flag'' started =
     (started\<lparr>logged := [Error_parsing ValueError]\<rparr>, None)"
  by (simp add: run_simps strftime_noon)

text \<open>
  C1, as the code has it: when the unescaped text of the payload has the shape
  \<open>k1=v1&k2=v2\<close> with no \<open>=\<close> and no \<open>&\<close> in the unescaped keys and values, and the
  store acknowledges the insert, exactly one document is added, its fields are exactly
  \<open>{k1: v1, k2: v2, date: ts}\<close> (a later field replacing an earlier one of the same
  name), and \<open>ts\<close> has the fixed timestamp format.
\<close>

theorem form_payload_round_trip:
  assumes "decode data = Inr s"
    and "unquote_plus s = k1 @ 61 # v1 @ 38 # k2 @ 61 # v2"
    and "61 \<notin> set (k1 @ v1 @ k2 @ v2)"
    and "38 \<notin> set (k1 @ v1 @ k2 @ v2)"
    and "datetime_ok now"
  shows "save_message_from_udp_data now Acknowledged data st =
      (st\<lparr>messages := messages st @
          [AList.update (lit ''date'') (strftime now) (AList.update k2 v2 [(k1, v1)])]\<rparr>, None)
    \<and> map_of (AList.update (lit ''date'') (strftime now) (AList.update k2 v2 [(k1, v1)])) =
        [k1 \<mapsto> v1, k2 \<mapsto> v2, lit ''date'' \<mapsto> strftime now]
    \<and> matches timestamp_pattern (strftime now)"
proof -
  have a: "38 \<notin> set (k1 @ 61 # v1)" "38 \<notin> set (k2 @ 61 # v2)"
    using assms(4) by auto
  have pairs: "str_split 38 (unquote_plus s) = [k1 @ 61 # v1, k2 @ 61 # v2]"
    unfolding assms(2)
    using str_split_append_sep [OF a(1), of "k2 @ 61 # v2"] str_split_no_sep [OF a(2)]
    by simp
  have kv: "str_split 61 (k @ 61 # v) = [k, v]" if "61 \<notin> set k" "61 \<notin> set v" for k v :: str
    using str_split_append_sep [OF that(1), of v] str_split_no_sep [OF that(2)] by simp
  have "parse_data data = Inr (AList.update k2 v2 [(k1, v1)])"
    using assms(1,3) by (simp add: parse_data_def pairs kv)
  from save_acknowledged [OF this] strftime_matches [OF assms(5)]
  show ?thesis by (simp add: update_conv' del: AList.update.simps)
qed

theorem form_payload_round_trip_witness:
  "save_message_from_udp_data noon Acknowledged ''name=Alice&msg=Hi+there%21'' started =
     (started\<lparr>messages := [[(lit ''name'', lit ''Alice''), (lit ''msg'', lit ''Hi there!''),
                              (lit ''date'', lit ''2024-02-29 12:00:07.004200'')]]\<rparr>, None)
   \<and> matches timestamp_pattern (lit ''2024-02-29 12:00:07.004200'')"
proof -
  have d: "decode ''name=Alice&msg=Hi+there%21'' = Inr (lit ''name=Alice&msg=Hi+there%21'')"
    by (simp add: run_simps)
  have u: "unquote_plus (lit ''name=Alice&msg=Hi+there%21'') =
      lit ''name'' @ 61 # lit ''Alice'' @ 38 # lit ''msg'' @ 61 # lit ''Hi there!''"
    by (simp add: run_simps)
  have e: "61 \<notin> set (lit ''name'' @ lit ''Alice'' @ lit ''msg'' @ lit ''Hi there!'')"
    by (simp add: lit_def)
  have m: "38 \<notin> set (lit ''name'' @ lit ''Alice'' @ lit ''msg'' @ lit ''Hi there!'')"
    by (simp add: lit_def)
  have n: "datetime_ok noon"
    by (simp add: datetime_ok_def noon_def)
  show ?thesis
    using form_payload_round_trip [OF d u e m n, of started]
    by (simp add: strftime_noon started_def) (simp add: lit_def)
qed

theorem escaped_separator_counterexample:
  "CHR ''='' \<notin> set ''a%3Db'' \<and> CHR ''&'' \<notin> set ''a%3Db''
   \<and> unquote_plus (lit ''k1=a%3Db&k2=v2'') = lit ''k1=a=b&k2=v2''
   \<and> save_message_from_udp_data noon Acknowledged ''k1=a%3Db&k2=v2'' started =
       (started\<lparr>logged := [Error_parsing ValueError]\<rparr>, None)"
  by (simp add: run_simps)

section \<open>Every persisted record carries the timestamp\<close>

lemma has_date_update:
  "datetime_ok now \<Longrightarrow> has_date (AList.update (lit ''date'') (strftime now) parsed)"
  by (simp add: has_date_def update_conv' strftime_matches)

lemma save_messages:
  "messages (fst (save_message_from_udp_data now reply data st)) =
    (case parse_data data of
       Inl e \<Rightarrow> messages st
     | Inr parsed \<Rightarrow>
         (case reply of
            Acknowledged \<Rightarrow> messages st @ [AList.update (lit ''date'') (strftime now) parsed]
          | Raises e \<Rightarrow> messages st))"
  by (simp add: save_message_from_udp_data_def insert_one_def log_to_def
      split: sum.splits driver_reply.splits)

lemma save_keeps_dates:
  assumes "datetime_ok now" and "\<forall>d \<in> set (messages st). has_date d"
  shows "\<forall>d \<in> set (messages (fst (save_message_from_udp_data now reply data st))). has_date d"
  using assms has_date_update [OF assms(1)]
  by (auto simp: save_messages split: sum.splits driver_reply.splits)

lemma receive_loop_keeps_dates:
  "\<forall>ev \<in> set evs. event_ok ev \<Longrightarrow> \<forall>d \<in> set (messages st). has_date d \<Longrightarrow>
   \<forall>d \<in> set (messages (fst (receive_loop evs st))). has_date d"
proof (induction evs st rule: receive_loop.induct)
  case (1 st)
  then show ?case by simp
next
  case (2 e evs st)
  then show ?case by simp
next
  case (3 payload now reply evs st)
  let ?data = "take BUFFER_SIZE payload"
  let ?st1 = "log_to (Info_received ?data) st"
  obtain st2 ex where s: "save_message_from_udp_data now reply ?data ?st1 = (st2, ex)"
    by (cases "save_message_from_udp_data now reply ?data ?st1")
  have ok: "datetime_ok now" using "3.prems"(1) by simp
  have "\<forall>d \<in> set (messages ?st1). has_date d"
    using "3.prems"(2) by (simp add: log_to_def)
  from save_keeps_dates [OF ok this, of reply ?data] s
  have st2: "\<forall>d \<in> set (messages st2). has_date d" by simp
  show ?case
  proof (cases ex)
    case None
    with "3.IH" [OF refl refl s [symmetric] None] "3.prems"(1) st2 s
    show ?thesis by (simp add: Let_def)
  next
    case (Some e)
    with st2 s show ?thesis by (simp add: Let_def)
  qed
qed

lemma run_socket_server_keeps_dates:
  assumes "\<forall>ev \<in> set evs. event_ok ev" and "\<forall>d \<in> set (messages st). has_date d"
  shows "\<forall>d \<in> set (messages (run_socket_server evs st)). has_date d"
proof -
  have "\<forall>d \<in> set (messages (log_to Info_socket_running st)). has_date d"
    using assms(2) by (simp add: log_to_def)
  from receive_loop_keeps_dates [OF assms(1) this]
  show ?thesis
    by (auto simp: run_socket_server_def log_to_def split: prod.splits option.splits)
qed

text \<open>
  C4: whenever a datagram decodes and the store takes the record, the record that is
  persisted is the decoded dict with \<open>date\<close> set to the timestamp taken at that moment:
  its \<open>date\<close> field is that timestamp, in the fixed format, whatever \<open>date\<close> the payload
  supplied. Hence every record in the collection carries a \<open>date\<close> field in the fixed
  format, however long the listener runs.
\<close>

theorem persisted_records_carry_date:
  assumes "datetime_ok now"
    and "parse_data data = Inr parsed"
    and "\<forall>ev \<in> set evs. event_ok ev"
    and "\<forall>d \<in> set (messages st). has_date d"
  shows "save_message_from_udp_data now Acknowledged data st =
      (st\<lparr>messages := messages st @ [AList.update (lit ''date'') (strftime now) parsed]\<rparr>, None)
    \<and> map_of (AList.update (lit ''date'') (strftime now) parsed) (lit ''date'') = Some (strftime now)
    \<and> matches timestamp_pattern (strftime now)
    \<and> (\<forall>d \<in> set (messages (run_socket_server evs st)). has_date d)"
  using save_acknowledged [OF assms(2), of now st] strftime_matches [OF assms(1)]
    run_socket_server_keeps_dates [OF assms(3,4)]
  by (simp add: update_conv')

theorem persisted_records_carry_date_witness:
  "parse_data ''date=yesterday&k=v'' = Inr [(lit ''date'', lit ''yesterday''), (lit ''k'', lit ''v'')]
   \<and> save_message_from_udp_data noon Acknowledged ''date=yesterday&k=v'' started =
       (started\<lparr>messages := [[(lit ''date'', lit ''2024-02-29 12:00:07.004200''), (lit ''k'', lit ''v'')]]\<rparr>, None)
   \<and> matches timestamp_pattern (lit ''2024-02-29 12:00:07.004200'')
   \<and> has_date (hd (messages (run_socket_server
        [Datagram ''date=yesterday&k=v'' noon Acknowledged, Datagram ''k=v'' noon (Raises ConnectionFailure)]
        started)))"
proof -
  have n: "datetime_ok noon"
    by (simp add: datetime_ok_def noon_def)
  have p: "parse_data ''date=yesterday&k=v'' = Inr [(lit ''date'', lit ''yesterday''), (lit ''k'', lit ''v'')]"
    by (simp add: run_simps)
  have e: "\<forall>ev \<in> set [Datagram ''date=yesterday&k=v'' noon Acknowledged,
      Datagram ''k=v'' noon (Raises ConnectionFailure)]. event_ok ev"
    by (simp add: n)
  have s: "\<forall>d \<in> set (messages started). has_date d"
    by (simp add: started_def)
  have r: "messages (run_socket_server
        [Datagram ''date=yesterday&k=v'' noon Acknowledged, Datagram ''k=v'' noon (Raises ConnectionFailure)]
        started) = [[(lit ''date'', lit ''2024-02-29 12:00:07.004200''), (lit ''k'', lit ''v'')]]"
    by (simp add: run_socket_server_def run_simps strftime_noon Let_def)
  show ?thesis
    using persisted_records_carry_date [OF n p e s]
    unfolding r by (simp add: p strftime_noon started_def)
qed

section \<open>Decoding and encoding again gives the bytes back\<close>

lemma div_mod_base:
  fixes q r m :: nat
  assumes "r < m"
  shows "(q * m + r) div m = q" and "(q * m + r) mod m = r"
  using assms by simp_all

lemma encode_two:
  assumes "194 \<le> b0" "b0 \<le> 223" "is_cont b1"
  shows "encode_cp ((b0 - 192) * 64 + (b1 - 128)) = Some [b0, b1]"
proof -
  define x y where "x = b0 - 192" and "y = b1 - 128"
  have b: "b0 = 192 + x" "b1 = 128 + y" and r: "2 \<le> x" "x \<le> 31" "y < 64"
    using assms by (auto simp: x_def y_def is_cont_def)
  let ?c = "x * 64 + y"
  have c: "128 \<le> ?c" "?c < 2048" using r by linarith+
  have d: "?c div 64 = x" "?c mod 64 = y"
    using div_mod_base [OF r(3), of x] by simp_all
  show ?thesis
    using c d by (simp add: b encode_cp.simps)
qed

lemma encode_three:
  assumes "224 \<le> b0" "b0 \<le> 239" "is_cont b1" "is_cont b2"
    and "\<not> (b0 = 224 \<and> b1 < 160)" "\<not> (b0 = 237 \<and> 160 \<le> b1)"
  shows "encode_cp ((b0 - 224) * 4096 + (b1 - 128) * 64 + (b2 - 128)) = Some [b0, b1, b2]"
proof -
  define x y z where "x = b0 - 224" and "y = b1 - 128" and "z = b2 - 128"
  have b: "b0 = 224 + x" "b1 = 128 + y" "b2 = 128 + z"
    and r: "x \<le> 15" "y < 64" "z < 64"
    using assms(1-4) by (auto simp: x_def y_def z_def is_cont_def)
  have lo: "x = 0 \<Longrightarrow> 32 \<le> y" and hi: "x = 13 \<Longrightarrow> y < 32"
    using assms(5,6) by (auto simp: b)
  let ?c = "x * 4096 + y * 64 + z"
  have c1: "2048 \<le> ?c"
  proof (cases "x = 0")
    case True with lo show ?thesis by simp
  next
    case False then have "1 \<le> x" by simp
    then show ?thesis by linarith
  qed
  have c2: "?c < 65536" using r by linarith
  have c3: "\<not> (55296 \<le> ?c \<and> ?c \<le> 57343)"
  proof -
    consider "x \<le> 12" | "x = 13" | "14 \<le> x" by linarith
    then show ?thesis
    proof cases
      case 1 with r show ?thesis by linarith
    next
      case 2 with hi r show ?thesis by simp
    next
      case 3 then show ?thesis by linarith
    qed
  qed
  have low: "y * 64 + z < 4096" using r by linarith
  have d1: "?c div 4096 = x"
    using div_mod_base(1) [OF low, of x] by (simp add: add.assoc)
  have e: "?c = (x * 64 + y) * 64 + z" by simp
  have "?c div 64 = x * 64 + y"
    unfolding e by (rule div_mod_base(1) [OF r(3)])
  then have d2: "(?c div 64) mod 64 = y"
    using div_mod_base(2) [OF r(2), of x] by simp
  have d3: "?c mod 64 = z"
    unfolding e by (rule div_mod_base(2) [OF r(3)])
  have n: "\<not> ?c < 128" "\<not> ?c < 2048" using c1 by linarith+
  show ?thesis
    using n c2 c3 d1 d2 d3 by (simp add: b encode_cp.simps)
qed

lemma encode_four:
  assumes "240 \<le> b0" "b0 \<le> 244" "is_cont b1" "is_cont b2" "is_cont b3"
    and "\<not> (b0 = 240 \<and> b1 < 144)" "\<not> (b0 = 244 \<and> 144 \<le> b1)"
  shows "encode_cp ((b0 - 240) * 262144 + (b1 - 128) * 4096 + (b2 - 128) * 64 + (b3 - 128))
    = Some [b0, b1, b2, b3]"
proof -
  define x y z w where "x = b0 - 240" and "y = b1 - 128" and "z = b2 - 128" and "w = b3 - 128"
  have b: "b0 = 240 + x" "b1 = 128 + y" "b2 = 128 + z" "b3 = 128 + w"
    and r: "x \<le> 4" "y < 64" "z < 64" "w < 64"
    using assms(1-5) by (auto simp: x_def y_def z_def w_def is_cont_def)
  have lo: "x = 0 \<Longrightarrow> 16 \<le> y" and hi: "x = 4 \<Longrightarrow> y < 16"
    using assms(6,7) by (auto simp: b)
  let ?c = "x * 262144 + y * 4096 + z * 64 + w"
  have c1: "65536 \<le> ?c"
  proof (cases "x = 0")
    case True with lo show ?thesis by simp
  next
    case False then have "1 \<le> x" by simp
    then show ?thesis by linarith
  qed
  have c2: "?c < 1114112"
  proof (cases "x = 4")
    case True with hi r show ?thesis by simp
  next
    case False with r have "x \<le> 3" by simp
    with r show ?thesis by linarith
  qed
  have low3: "y * 4096 + z * 64 + w < 262144" using r by linarith
  have low2: "z * 64 + w < 4096" using r by linarith
  have d1: "?c div 262144 = x"
    using div_mod_base(1) [OF low3, of x] by (simp add: add.assoc)
  have e2: "?c = (x * 64 + y) * 4096 + (z * 64 + w)" by simp
  have "?c div 4096 = x * 64 + y"
    unfolding e2 by (rule div_mod_base(1) [OF low2])
  then have d2: "(?c div 4096) mod 64 = y"
    using div_mod_base(2) [OF r(2), of x] by simp
  have e3: "?c = ((x * 64 + y) * 64 + z) * 64 + w" by simp
  have "?c div 64 = (x * 64 + y) * 64 + z"
    unfolding e3 by (rule div_mod_base(1) [OF r(4)])
  then have d3: "(?c div 64) mod 64 = z"
    using div_mod_base(2) [OF r(3), of "x * 64 + y"] by simp
  have d4: "?c mod 64 = w"
    unfolding e3 by (rule div_mod_base(2) [OF r(4)])
  have n: "\<not> ?c < 128" "\<not> ?c < 2048" "\<not> ?c < 65536" using c1 by linarith+
  show ?thesis
    using n c2 d1 d2 d3 d4 by (simp add: b encode_cp.simps)
qed

lemma utf8_first_two:
  "194 \<le> b \<Longrightarrow> b \<le> 223 \<Longrightarrow> utf8_first b bs =
     (case bs of
        [] \<Rightarrow> (None, 0)
      | b1 # _ \<Rightarrow> if is_cont b1 then (Some ((b - 192) * 64 + (b1 - 128)), 1) else (None, 0))"
  by (simp add: utf8_first.simps)

lemma utf8_first_three:
  "224 \<le> b \<Longrightarrow> b \<le> 239 \<Longrightarrow> utf8_first b bs =
     (case bs of
        [] \<Rightarrow> (None, 0)
      | b1 # bs1 \<Rightarrow>
          if \<not> is_cont b1 \<or> (b = 224 \<and> b1 < 160) \<or> (b = 237 \<and> 160 \<le> b1) then (None, 0)
          else (case bs1 of
                  [] \<Rightarrow> (None, 1)
                | b2 # _ \<Rightarrow>
                    if is_cont b2
                    then (Some ((b - 224) * 4096 + (b1 - 128) * 64 + (b2 - 128)), 2)
                    else (None, 1)))"
  by (simp add: utf8_first.simps)

lemma utf8_first_four:
  "240 \<le> b \<Longrightarrow> b \<le> 244 \<Longrightarrow> utf8_first b bs =
     (case bs of
        [] \<Rightarrow> (None, 0)
      | b1 # bs1 \<Rightarrow>
          if \<not> is_cont b1 \<or> (b = 240 \<and> b1 < 144) \<or> (b = 244 \<and> 144 \<le> b1) then (None, 0)
          else (case bs1 of
                  [] \<Rightarrow> (None, 1)
                | b2 # bs2 \<Rightarrow>
                    if \<not> is_cont b2 then (None, 1)
                    else (case bs2 of
                            [] \<Rightarrow> (None, 2)
                          | b3 # _ \<Rightarrow>
                              if is_cont b3
                              then (Some ((b - 240) * 262144 + (b1 - 128) * 4096
                                          + (b2 - 128) * 64 + (b3 - 128)), 3)
                              else (None, 2))))"
  by (simp add: utf8_first.simps)

lemma utf8_first_encode:
  assumes "utf8_first b bs = (Some c, k)"
  shows "encode_cp c = Some (b # take k bs) \<and> k \<le> length bs"
proof -
  consider "b < 128" | "194 \<le> b \<and> b \<le> 223" | "224 \<le> b \<and> b \<le> 239" | "240 \<le> b \<and> b \<le> 244"
    | "\<not> b < 128 \<and> \<not> (194 \<le> b \<and> b \<le> 223) \<and> \<not> (224 \<le> b \<and> b \<le> 239) \<and> \<not> (240 \<le> b \<and> b \<le> 244)"
    by blast
  then show ?thesis
  proof cases
    case 1
    with assms show ?thesis by (simp add: utf8_first.simps encode_cp.simps)
  next
    case 2
    then have r: "194 \<le> b" "b \<le> 223" by simp_all
    from assms obtain b1 bs1 where bs: "bs = b1 # bs1" and c1: "is_cont b1"
      and c: "c = (b - 192) * 64 + (b1 - 128)" and k: "k = 1"
      unfolding utf8_first_two [OF r] by (cases bs) (auto split: if_splits)
    show ?thesis
      unfolding c k bs using encode_two [OF r c1] by simp
  next
    case 3
    then have r: "224 \<le> b" "b \<le> 239" by simp_all
    from assms obtain b1 bs1 where bs: "bs = b1 # bs1"
      and c1: "is_cont b1" "\<not> (b = 224 \<and> b1 < 160)" "\<not> (b = 237 \<and> 160 \<le> b1)"
      and rest: "(case bs1 of
                  [] \<Rightarrow> (None, 1)
                | b2 # _ \<Rightarrow>
                    if is_cont b2
                    then (Some ((b - 224) * 4096 + (b1 - 128) * 64 + (b2 - 128)), 2)
                    else (None, 1)) = (Some c, k)"
      unfolding utf8_first_three [OF r] by (cases bs) (auto split: if_splits)
    from rest obtain b2 bs2 where bs1: "bs1 = b2 # bs2" and c2: "is_cont b2"
      and c: "c = (b - 224) * 4096 + (b1 - 128) * 64 + (b2 - 128)" and k: "k = 2"
      by (cases bs1) (auto split: if_splits)
    show ?thesis
      unfolding c k bs bs1 using encode_three [OF r c1(1) c2 c1(2,3)] by simp
  next
    case 4
    then have r: "240 \<le> b" "b \<le> 244" by simp_all
    from assms obtain b1 bs1 where bs: "bs = b1 # bs1"
      and c1: "is_cont b1" "\<not> (b = 240 \<and> b1 < 144)" "\<not> (b = 244 \<and> 144 \<le> b1)"
      and rest: "(case bs1 of
                  [] \<Rightarrow> (None, 1)
                | b2 # bs2 \<Rightarrow>
                    if \<not> is_cont b2 then (None, 1)
                    else (case bs2 of
                            [] \<Rightarrow> (None, 2)
                          | b3 # _ \<Rightarrow>
                              if is_cont b3
                              then (Some ((b - 240) * 262144 + (b1 - 128) * 4096
                                          + (b2 - 128) * 64 + (b3 - 128)), 3)
                              else (None, 2))) = (Some c, k)"
      unfolding utf8_first_four [OF r] by (cases bs) (auto split: if_splits)
    from rest obtain b2 bs2 where bs1: "bs1 = b2 # bs2" and c2: "is_cont b2"
      and rest2: "(case bs2 of
                            [] \<Rightarrow> (None, 2)
                          | b3 # _ \<Rightarrow>
                              if is_cont b3
                              then (Some ((b - 240) * 262144 + (b1 - 128) * 4096
                                          + (b2 - 128) * 64 + (b3 - 128)), 3)
                              else (None, 2)) = (Some c, k)"
      by (cases bs1) (auto split: if_splits)
    from rest2 obtain b3 bs3 where bs2: "bs2 = b3 # bs3" and c3: "is_cont b3"
      and c: "c = (b - 240) * 262144 + (b1 - 128) * 4096 + (b2 - 128) * 64 + (b3 - 128)"
      and k: "k = 3"
      by (cases bs2) (auto split: if_splits)
    show ?thesis
      unfolding c k bs bs1 bs2 using encode_four [OF r c1(1) c2 c3 c1(2,3)] by simp
  next
    case 5
    with assms show ?thesis by (simp add: utf8_first.simps)
  qed
qed

lemma utf8_scan_encode:
  "those (utf8_scan bs) = Some s \<Longrightarrow> \<exists>bss. those (map encode_cp s) = Some bss \<and> concat bss = bs"
proof (induction bs arbitrary: s rule: utf8_scan.induct)
  case 1
  then show ?case by simp
next
  case (2 b bs)
  obtain r k where f: "utf8_first b bs = (r, k)" by (cases "utf8_first b bs")
  with "2.prems" obtain c s' where c: "r = Some c" and s': "those (utf8_scan (drop k bs)) = Some s'"
    and s: "s = c # s'"
    by (auto split: option.splits)
  from "2.IH" [OF f [symmetric] s'] obtain bss
    where bss: "those (map encode_cp s') = Some bss" "concat bss = drop k bs" by blast
  from utf8_first_encode [OF f [unfolded c]]
  have "encode_cp c = Some (b # take k bs)" by simp
  with bss s show ?case by simp
qed

lemma decode_encode:
  assumes "decode raw = Inr text"
  shows "encode text = Inr raw"
proof -
  from assms have "those (utf8_scan (map of_char raw)) = Some text"
    by (simp add: decode_def split: option.splits)
  from utf8_scan_encode [OF this] obtain bss
    where "those (map encode_cp text) = Some bss" "concat bss = map of_char raw" by blast
  then show ?thesis
    by (simp add: encode_def comp_def)
qed

section \<open>The HTTP handler\<close>

lemmas http_simps =
  do_GET_def do_POST_def send_html_def send_static_def or_text_plain_def open_rb_def
  exists_def emit_def
  content_size_def rfile_read_def site_def fresh_def TEMPLATES_DIR_def
  SOCKET_HOST_def SOCKET_PORT_def

lemma py_int_one: "py_int ''1'' = Inr 1"
  by (simp add: py_int_def is_space_def is_digit_def digits_value_def)

lemma do_POST_relays:
  assumes "content_size req = Inr n" and "0 \<le> n" and "n < 2 ^ 63"
    and "alloc_fault env (nat n) = None"
    and "decode (take (nat n) (rfile req)) = Inr text"
    and "socket_fault env = None"
    and "sendto_fault env (take (nat n) (rfile req)) = None"
  shows "encode text = Inr (take (nat n) (rfile req))
    \<and> do_POST env req h =
        (h\<lparr>wfile := wfile h @ [Status 302, Header ''Location'' ''/'', End_headers],
           datagrams := datagrams h @ [(take (nat n) (rfile req), SOCKET_HOST, SOCKET_PORT)]\<rparr>,
         None)"
proof -
  have e: "encode text = Inr (take (nat n) (rfile req))"
    by (rule decode_encode [OF assms(5)])
  have r: "rfile_read env n (rfile req) = Inr (take (nat n) (rfile req))"
    using assms(2,3,4) by (simp add: rfile_read_def)
  show ?thesis
    using assms(1,5,6,7) e r by (simp add: do_POST_def emit_def)
qed

text \<open>
  C5, as the code has it: when the \<open>Content-Length\<close> header is absent (size 0) or an
  integer literal \<open>n\<close> that \<^verbatim>\<open>int\<close> accepts, with \<open>0 \<le> n < 2^63\<close>, a read buffer of
  \<open>n\<close> bytes can be allocated, the first \<open>n\<close> bytes of the body (all of it when it is
  shorter) are valid UTF-8, and the operating system provides the socket and takes
  the datagram, the handler sends exactly one datagram to the relay target, holding
  the decoded and re-encoded bytes, which are the bytes read, and answers 302 with
  \<open>Location: /\<close>, whatever the path.
\<close>

theorem post_relays_and_redirects:
  assumes "content_size req = Inr n" and "0 \<le> n" and "n < 2 ^ 63"
    and "alloc_fault env (nat n) = None"
    and "decode (take (nat n) (rfile req)) = Inr text"
    and "socket_fault env = None"
    and "sendto_fault env (take (nat n) (rfile req)) = None"
  shows "encode text = Inr (take (nat n) (rfile req))
    \<and> do_POST env req h =
        (h\<lparr>wfile := wfile h @ [Status 302, Header ''Location'' ''/'', End_headers],
           datagrams := datagrams h @ [(take (nat n) (rfile req), SOCKET_HOST, SOCKET_PORT)]\<rparr>,
         None)"
  by (rule do_POST_relays [OF assms])

theorem post_relays_and_redirects_witness:
  "do_POST site \<lparr>path = ''/message'', content_length = Some ''17'', rfile = ''name=Alice&msg=Hi''\<rparr> fresh =
     (\<lparr>wfile = [Status 302, Header ''Location'' ''/'', End_headers],
       datagrams = [(''name=Alice&msg=Hi'', [], 5000)]\<rparr>, None)"
proof -
  let ?req = "\<lparr>path = ''/message'', content_length = Some ''17'', rfile = ''name=Alice&msg=Hi''\<rparr>"
  have c: "content_size ?req = Inr 17"
    by (simp add: content_size_def py_int_def is_space_def is_digit_def digits_value_def)
  have t: "take (nat 17) (rfile ?req) = ''name=Alice&msg=Hi''"
    by simp
  have d: "decode (take (nat 17) (rfile ?req)) = Inr (lit ''name=Alice&msg=Hi'')"
    unfolding t by (simp add: run_simps)
  have s: "sendto_fault site (take (nat 17) (rfile ?req)) = None"
    and k: "socket_fault site = None" and a: "alloc_fault site (nat 17) = None"
    by (simp_all add: site_def)
  have b: "(0::int) \<le> 17" "(17::int) < 2 ^ 63"
    by simp_all
  show ?thesis
    using post_relays_and_redirects [OF c b a d k s, of fresh]
    by (simp add: fresh_def SOCKET_HOST_def SOCKET_PORT_def)
qed

theorem post_body_not_text_counterexample:
  "do_POST site \<lparr>path = ''/message'', content_length = Some ''1'', rfile = [CHR 0xFF]\<rparr> fresh =
     (fresh, Some UnicodeDecodeError)
   \<and> do_POST site \<lparr>path = ''/message'', content_length = Some ''many'', rfile = ''a=b''\<rparr> fresh =
     (fresh, Some ValueError)
   \<and> do_POST site \<lparr>path = ''/message'', content_length = Some [CHR ''3'', CHR 0x1F],
         rfile = ''a=b''\<rparr> fresh =
     (fresh, Some ValueError)
   \<and> do_POST site \<lparr>path = ''/message'', content_length = Some ''100000000000000000000'',
         rfile = ''a=b''\<rparr> fresh =
     (fresh, Some OverflowError)
   \<and> wfile fresh = [] \<and> datagrams fresh = []"
proof -
  have a: "py_int ''many'' = Inl ValueError"
    by (simp add: py_int_def is_space_def is_digit_def)
  have b: "py_int [CHR ''3'', CHR 0x1F] = Inl ValueError"
    by (simp add: py_int_def is_space_def is_digit_def)
  have c: "py_int ''100000000000000000000'' = Inr 100000000000000000000"
    by (simp add: py_int_def is_space_def is_digit_def digits_value_def)
  show ?thesis
    by (simp add: do_POST_def content_size_def rfile_read_def site_def fresh_def
        py_int_one a b c decode_def utf8_first.simps)
qed

text \<open>
  C6: when the path component of the request target is \<open>/\<close>, the answer is status 200,
  content type \<open>text/html\<close> and the bytes of the \<open>index.html\<close> template; two such
  requests get the same answer, whatever else (a query string) their targets hold.
\<close>

theorem root_serves_index:
  assumes "urlparse_path env (path req) = Inr ''/''"
    and "urlparse_path env (path req') = Inr ''/''"
    and "lookup env (Joinpath TEMPLATES_DIR ''index.html'') = Some (File content)"
  shows "do_GET env req h =
      (h\<lparr>wfile := wfile h @
          [Status 200, Header ''Content-type'' ''text/html'', End_headers, Body content]\<rparr>, None)
    \<and> do_GET env req' h = do_GET env req h"
  using assms by (simp add: do_GET_def send_html_def open_rb_def emit_def)

theorem root_serves_index_witness:
  "do_GET site \<lparr>path = ''/?page=2&sort=name'', content_length = None, rfile = []\<rparr> fresh =
     (\<lparr>wfile = [Status 200, Header ''Content-type'' ''text/html'', End_headers, Body ''<h1>Cats</h1>''],
       datagrams = []\<rparr>, None)
   \<and> do_GET site \<lparr>path = ''/'', content_length = None, rfile = []\<rparr> fresh =
     do_GET site \<lparr>path = ''/?page=2&sort=name'', content_length = None, rfile = []\<rparr> fresh"
proof -
  have a: "urlparse_path site (path \<lparr>path = ''/?page=2&sort=name'', content_length = None, rfile = []\<rparr>) = Inr ''/''"
    by (simp add: site_def)
  have b: "urlparse_path site (path \<lparr>path = ''/'', content_length = None, rfile = []\<rparr>) = Inr ''/''"
    by (simp add: site_def)
  have c: "lookup site (Joinpath TEMPLATES_DIR ''index.html'') = Some (File ''<h1>Cats</h1>'')"
    by (simp add: site_def)
  show ?thesis
    using root_serves_index [OF a b c, of fresh] by (simp add: fresh_def)
qed




text \<open>
  C9: every status that \<open>do_GET\<close> writes is 200 or 404 and every status that \<open>do_POST\<close>
  writes is 302, whatever the request and the surroundings; and what a POST answers
  is settled before the datagram reaches the listener, so it is the same whatever the
  listener and the store do with it.
\<close>

theorem only_three_statuses:
  "set (statuses (fst (do_GET env req h))) \<subseteq> set (statuses h) \<union> {200, 404}
   \<and> set (statuses (fst (do_POST env req h))) \<subseteq> set (statuses h) \<union> {302}
   \<and> fst (submit env req now reply st) = do_POST env req fresh
   \<and> fst (submit env req now reply st) = fst (submit env req now' reply' st')"
proof -
  have g: "set (statuses (fst (do_GET env req h))) \<subseteq> set (statuses h) \<union> {200, 404}"
    by (auto simp: do_GET_def send_html_def send_static_def emit_def statuses_def Let_def
        split: sum.splits if_splits)
  have p: "set (statuses (fst (do_POST env req h))) \<subseteq> set (statuses h) \<union> {302}"
    by (auto simp: do_POST_def emit_def statuses_def split: sum.splits option.splits)
  show ?thesis
    using g p by (simp add: submit_def Let_def)
qed

theorem only_three_statuses_witness:
  "statuses (fst (do_GET site \<lparr>path = ''/nothing'', content_length = None, rfile = []\<rparr> fresh)) = [404]
   \<and> statuses (fst (do_POST site \<lparr>path = ''/message'', content_length = Some ''1'', rfile = ''x''\<rparr> fresh)) = [302]
   \<and> fst (submit site \<lparr>path = ''/message'', content_length = Some ''1'', rfile = ''x''\<rparr>
            noon (Raises ConnectionFailure) started) =
      (\<lparr>wfile = [Status 302, Header ''Location'' ''/'', End_headers],
        datagrams = [(''x'', [], 5000)]\<rparr>, None)"
proof -
  let ?get = "\<lparr>path = ''/nothing'', content_length = None, rfile = []\<rparr>"
  let ?post = "\<lparr>path = ''/message'', content_length = Some ''1'', rfile = ''x''\<rparr>"
  have g: "do_GET site ?get fresh =
      (\<lparr>wfile = [Status 404, Header ''Content-type'' ''text/html'', End_headers, Body ''<h1>Not found</h1>''],
        datagrams = []\<rparr>, None)"
    by (simp add: http_simps)
  have p: "do_POST site ?post fresh =
      (\<lparr>wfile = [Status 302, Header ''Location'' ''/'', End_headers],
        datagrams = [(''x'', [], 5000)]\<rparr>, None)"
  proof -
    have c: "content_size ?post = Inr 1"
      by (simp add: content_size_def py_int_one)
    have d: "decode (take (nat 1) (rfile ?post)) = Inr (lit ''x'')"
      by (simp add: run_simps)
    have s: "sendto_fault site (take (nat 1) (rfile ?post)) = None"
      and k: "socket_fault site = None" and a: "alloc_fault site (nat 1) = None"
      by (simp_all add: site_def)
    have b: "(0::int) \<le> 1" "(1::int) < 2 ^ 63"
      by simp_all
    show ?thesis
      using do_POST_relays [OF c b a d k s, of fresh]
      by (simp add: fresh_def SOCKET_HOST_def SOCKET_PORT_def)
  qed
  have "fst (submit site ?post noon (Raises ConnectionFailure) started) = do_POST site ?post fresh"
    using only_three_statuses [of site ?post fresh noon "Raises ConnectionFailure" started
        noon Acknowledged started]
    by simp
  then show ?thesis
    by (simp add: g p statuses_def)
qed

end
